theory Spec2Isabelle
  imports Complex_Main "HOL-Library.Sublist"
begin

section \<open>Data model\<close>

text \<open>
  The records follow the fields that \<open>sync.py\<close> reads. Text is ASCII text, a
  \<open>string\<close> of characters below 128; Python's \<open>None\<close> for an optional field is
  \<open>None\<close>. A Spotify track is a dictionary: \<open>sp_isrc\<close> is the entry
  \<open>external_ids["isrc"]\<close>, which is \<open>None\<close> when the key is absent, \<open>Some None\<close>
  when the key is there with a null value, and \<open>Some (Some i)\<close> when it holds the
  code \<open>i\<close>; the dictionary \<open>external_ids\<close> itself is there, as the fetch asks for
  it. \<open>sp_album\<close> is \<open>None\<close> when the key \<open>album\<close> is absent; an album that
  is present has its \<open>artists\<close> entry (the playlist fetch asks for
  \<open>album(name,artists)\<close>). The durations are integers within the range of a float, so
  that no conversion overflows. Artists are kept by their
  \<open>name\<close>, the only field of an artist the code reads. A Tidal album carries the
  answer of its \<open>tracks()\<close> call as \<open>al_tracks\<close>.
\<close>

record spotify_album =
  album_name :: string
  album_artists :: "string list"

record spotify_track =
  sp_id :: "string option"
  sp_name :: string
  duration_ms :: int
  sp_artists :: "string list"
  sp_isrc :: "string option option"
  sp_album :: "spotify_album option"
  track_number :: int

record tidal_track =
  td_id :: int
  td_name :: string
  version :: "string option"
  duration :: int
  td_artists :: "string list"
  td_isrc :: "string option"
  available :: bool

record tidal_album =
  al_name :: string
  al_artists :: "string list"
  num_tracks :: int
  al_tracks :: "tidal_track list"

text \<open>
  The catalog's search call is a collaborator: a session is the pair of its answers,
  for album queries and for track queries.
\<close>

record tidal_session =
  search_albums :: "string \<Rightarrow> tidal_album list"
  search_tracks :: "string \<Rightarrow> tidal_track list"

datatype py_error = IndexError | ZeroDivisionError | AssertionError

section \<open>String helpers of the Python library, on ASCII text\<close>

definition isspace :: "char \<Rightarrow> bool" where
  "isspace c = (let n = (of_char c :: nat) in (9 \<le> n \<and> n \<le> 13) \<or> (28 \<le> n \<and> n \<le> 32))"

definition strip :: "string \<Rightarrow> string" where
  "strip s = rev (dropWhile isspace (rev (dropWhile isspace s)))"

definition lower_char :: "char \<Rightarrow> char" where
  "lower_char c = (let n = (of_char c :: nat) in if 65 \<le> n \<and> n \<le> 90 then char_of (n + 32) else c)"

definition lower :: "string \<Rightarrow> string" where
  "lower s = map lower_char s"

text \<open>\<open>s.split(sep)\<close> for a non-empty separator: every occurrence splits, left to right.\<close>

function split :: "string \<Rightarrow> string \<Rightarrow> string list" where
  "split sep [] = [[]]"
| "split sep (c # cs) =
     (if sep \<noteq> [] \<and> prefix sep (c # cs)
      then [] # split sep (drop (length sep) (c # cs))
      else (case split sep cs of w # ws \<Rightarrow> (c # w) # ws | [] \<Rightarrow> [[c]]))"
  by pat_completeness auto
termination
  by (relation "measure (\<lambda>(sep, s). length s)") (auto simp: neq_Nil_conv)

text \<open>\<open>x in s\<close> on strings is the contiguous-sublist test.\<close>

definition contains :: "string \<Rightarrow> string \<Rightarrow> bool" where
  "contains s x = sublist x s"

section \<open>Floats\<close>

text \<open>
  A Python float is a double: a number \<open>m * 2^e\<close> with \<open>|m| < 2^53\<close>. It is kept as
  the rational it denotes. \<open>py_float x\<close> is the double nearest to \<open>x\<close>, of two nearest
  ones the one with the even \<open>m\<close>: the result of converting an integer, of dividing
  two integers and of every float operation. \<open>float_pos\<close> scales a positive \<open>x\<close> into
  \<open>[2^52, 2^53)\<close>, rounds there to an integer and scales back. The exponent range is
  not bounded.
\<close>

definition round_half_even :: "rat \<Rightarrow> int" where
  "round_half_even q =
     (let f = \<lfloor>q\<rfloor>; d = q - of_int f
      in if d < 1 / 2 then f else if 1 / 2 < d then f + 1 else if even f then f else f + 1)"

function float_pos :: "rat \<Rightarrow> rat" where
  "float_pos x =
     (if x \<le> 0 then 0
      else if x < 2 ^ 52 then float_pos (2 * x) / 2
      else if 2 ^ 53 \<le> x then 2 * float_pos (x / 2)
      else of_int (round_half_even x))"
  by pat_completeness auto
termination
proof (relation "measure (\<lambda>x. if x < 2 ^ 52 then nat \<lceil>2 ^ 52 / x\<rceil> else nat \<lfloor>x / 2 ^ 52\<rfloor>)")
  show "wf (measure (\<lambda>x::rat. if x < 2 ^ 52 then nat \<lceil>2 ^ 52 / x\<rceil> else nat \<lfloor>x / 2 ^ 52\<rfloor>))"
    by simp
next
  fix x :: rat
  assume a: "\<not> x \<le> 0" "x < 2 ^ 52"
  define c where "c = 2 ^ 52 / x"
  from a have c1: "1 < c"
    by (simp add: c_def)
  then have big: "2 \<le> \<lceil>c\<rceil>"
    by linarith
  show "(2 * x, x) \<in> measure (\<lambda>x. if x < 2 ^ 52 then nat \<lceil>2 ^ 52 / x\<rceil> else nat \<lfloor>x / 2 ^ 52\<rfloor>)"
  proof (cases "2 * x < 2 ^ 52")
    case True
    with a have "2 \<le> c"
      by (simp add: c_def le_divide_eq)
    then have "\<lceil>c / 2\<rceil> < \<lceil>c\<rceil>"
      by linarith
    moreover have "2 ^ 52 / (2 * x) = c / 2"
      by (simp add: c_def)
    ultimately have "\<lceil>2 ^ 52 / (2 * x)\<rceil> < \<lceil>2 ^ 52 / x\<rceil>"
      by (simp only: c_def)
    with True a big show ?thesis
      by (simp add: c_def)
  next
    case False
    with a have "1 \<le> 2 * x / 2 ^ 52" "2 * x / 2 ^ 52 < 2"
      by (simp_all add: le_divide_eq divide_less_eq)
    then have "\<lfloor>2 * x / 2 ^ 52\<rfloor> = 1"
      by linarith
    with False a big show ?thesis
      by (simp add: c_def)
  qed
next
  fix x :: rat
  assume a: "\<not> x \<le> 0" "\<not> x < 2 ^ 52" "2 ^ 53 \<le> x"
  define c where "c = x / 2 ^ 52"
  from a have "2 \<le> c"
    by (simp add: c_def le_divide_eq)
  then have "\<lfloor>c / 2\<rfloor> < \<lfloor>c\<rfloor>" "0 < \<lfloor>c\<rfloor>"
    by linarith+
  moreover have "x / 2 / 2 ^ 52 = c / 2"
    by (simp add: c_def)
  ultimately have "\<lfloor>x / 2 / 2 ^ 52\<rfloor> < \<lfloor>x / 2 ^ 52\<rfloor>" "0 < \<lfloor>x / 2 ^ 52\<rfloor>"
    by (simp_all only: c_def)
  moreover from a have "\<not> x / 2 < 2 ^ 52"
    by simp
  ultimately show "(x / 2, x) \<in> measure (\<lambda>x. if x < 2 ^ 52 then nat \<lceil>2 ^ 52 / x\<rceil> else nat \<lfloor>x / 2 ^ 52\<rfloor>)"
    using a by simp
qed

definition py_float :: "rat \<Rightarrow> rat" where
  "py_float x = (if x < 0 then - float_pos (- x) else float_pos x)"

section \<open>Identity matcher\<close>

definition normalize :: "string \<Rightarrow> string" where
  \<comment> \<open>On ASCII text NFD changes nothing and the encoding to ASCII has nothing to drop;
      a character from 128 on, which the text does not have, would be dropped here.\<close>
  "normalize s = filter (\<lambda>c. (of_char c :: nat) < 128) s"

definition simple :: "string \<Rightarrow> string" where
  "simple input_string =
     strip (hd (split ''['' (strip (hd (split ''('' (strip (hd (split ''-'' input_string))))))))"

text \<open>A Python value used as a condition: \<open>None\<close> and the empty string are false.\<close>

definition truthy :: "string option \<Rightarrow> bool" where
  "truthy v = (case v of None \<Rightarrow> False | Some s \<Rightarrow> s \<noteq> [])"

text \<open>The same for an optional integer: \<open>None\<close> and \<open>0\<close> are false.\<close>

definition truthy_int :: "int option \<Rightarrow> bool" where
  "truthy_int v = (case v of None \<Rightarrow> False | Some n \<Rightarrow> n \<noteq> 0)"

text \<open>
  When the key \<open>isrc\<close> is there, its value is compared with the candidate's
  \<open>isrc\<close>, whatever the two are: a null value equals a candidate without ISRC.
\<close>

definition isrc_match :: "tidal_track \<Rightarrow> spotify_track \<Rightarrow> bool" where
  "isrc_match tidal_track spotify_track =
     (case sp_isrc spotify_track of
        Some isrc \<Rightarrow> td_isrc tidal_track = isrc
      | None \<Rightarrow> False)"

text \<open>
  \<open>duration_ms / 1000\<close> divides two integers into a float; the subtraction converts
  the integer \<open>duration\<close> to a float and rounds the difference; \<open>abs\<close> and the
  comparison with the tolerance are exact.
\<close>

definition duration_match :: "tidal_track \<Rightarrow> spotify_track \<Rightarrow> rat \<Rightarrow> bool" where
  "duration_match tidal_track spotify_track tolerance =
     (\<bar>py_float (py_float (of_int (duration tidal_track))
                - py_float (of_int (duration_ms spotify_track) / 1000))\<bar>
      < tolerance)"

definition exclusion_rule :: "string \<Rightarrow> tidal_track \<Rightarrow> spotify_track \<Rightarrow> bool" where
  "exclusion_rule pattern tidal_track spotify_track =
     (let spotify_has_pattern = contains (lower (sp_name spotify_track)) pattern;
          tidal_has_pattern =
            (contains (lower (td_name tidal_track)) pattern
             \<or> (case version tidal_track of
                  None \<Rightarrow> False
                | Some v \<Rightarrow> contains (lower v) pattern))
      in spotify_has_pattern \<noteq> tidal_has_pattern)"

definition name_match :: "tidal_track \<Rightarrow> spotify_track \<Rightarrow> bool" where
  "name_match tidal_track spotify_track =
     (if exclusion_rule ''instrumental'' tidal_track spotify_track then False
      else if exclusion_rule ''acapella'' tidal_track spotify_track then False
      else if exclusion_rule ''remix'' tidal_track spotify_track then False
      else
        (let simple_spotify_track =
               strip (hd (split ''feat.'' (simple (lower (sp_name spotify_track)))))
         in contains (lower (td_name tidal_track)) simple_spotify_track
            \<or> contains (normalize (lower (td_name tidal_track))) (normalize simple_spotify_track)))"

definition split_artist_name :: "string \<Rightarrow> string list" where
  "split_artist_name artist =
     (if contains artist ''&'' then split ''&'' artist
      else if contains artist '','' then split '','' artist
      else [artist])"

definition get_artists :: "string list \<Rightarrow> bool \<Rightarrow> string set" where
  \<comment> \<open>\<open>get_tidal_artists\<close> and \<open>get_spotify_artists\<close> have this one body.\<close>
  "get_artists artists do_normalize =
     (let result = concat (map (\<lambda>artist_name.
                      split_artist_name (if do_normalize then normalize artist_name else artist_name))
                    artists)
      in set (map (\<lambda>x. simple (lower (strip x))) result))"

definition artist_match :: "string list \<Rightarrow> string list \<Rightarrow> bool" where
  "artist_match tidal_artists spotify_artists =
     (if get_artists tidal_artists False \<inter> get_artists spotify_artists False \<noteq> {} then True
      else get_artists tidal_artists True \<inter> get_artists spotify_artists True \<noteq> {})"

definition match :: "tidal_track \<Rightarrow> spotify_track \<Rightarrow> bool" where
  "match tidal_track spotify_track =
     (if \<not> truthy (sp_id spotify_track) then False
      else isrc_match tidal_track spotify_track
           \<or> (duration_match tidal_track spotify_track 2
              \<and> name_match tidal_track spotify_track
              \<and> artist_match (td_artists tidal_track) (sp_artists spotify_track)))"

section \<open>Match and failure caches\<close>

text \<open>
  The module \<open>cache.py\<close> is not part of the sources read here. Both caches are keyed by
  the value of \<open>spotify_track['id']\<close>, whatever it is, hence by a \<open>string option\<close>.
  The match cache is kept as the list of the pairs inserted, the newest first; a lookup
  finds the newest pair of its key.
\<close>

record caches =
  track_match_cache :: "(string option \<times> int) list"
  failure_cache :: "string option set"

definition track_match_cache_insert :: "caches \<Rightarrow> string option \<times> int \<Rightarrow> caches" where
  \<comment> \<open>Modelled from the spec: \<open>track_match_cache.insert\<close> of \<open>cache.py\<close>, a key-value
      store with \<open>insert((sourceId, catalogId))\<close>.\<close>
  "track_match_cache_insert c mapping = c\<lparr>track_match_cache := mapping # track_match_cache c\<rparr>"

definition track_match_cache_get :: "caches \<Rightarrow> string option \<Rightarrow> int option" where
  \<comment> \<open>Modelled from the spec: \<open>track_match_cache.get\<close> of \<open>cache.py\<close>,
      \<open>get(sourceId) -> catalogId|none\<close>.\<close>
  "track_match_cache_get c track_id = map_of (track_match_cache c) track_id"

definition cache_match_failure :: "caches \<Rightarrow> string option \<Rightarrow> caches" where
  \<comment> \<open>Modelled from the spec: \<open>failure_cache.cache_match_failure\<close> of \<open>cache.py\<close>,
      \<open>cacheFailure(sourceId)\<close>.\<close>
  "cache_match_failure c track_id = c\<lparr>failure_cache := insert track_id (failure_cache c)\<rparr>"

definition has_match_failure :: "caches \<Rightarrow> string option \<Rightarrow> bool" where
  \<comment> \<open>Modelled from the spec: \<open>failure_cache.has_match_failure\<close> of \<open>cache.py\<close>,
      \<open>hasFailure(sourceId) -> bool\<close>.\<close>
  "has_match_failure c track_id = (track_id \<in> failure_cache c)"

definition remove_match_failure :: "caches \<Rightarrow> string option \<Rightarrow> caches" where
  \<comment> \<open>Modelled from the spec: \<open>failure_cache.remove_match_failure\<close> of \<open>cache.py\<close>,
      \<open>removeFailure(sourceId)\<close>.\<close>
  "remove_match_failure c track_id = c\<lparr>failure_cache := failure_cache c - {track_id}\<rparr>"

section \<open>Catalog search\<close>

text \<open>
  \<open>SequenceMatcher(None, a, b).ratio()\<close> of \<open>difflib\<close> is a parameter \<open>ratio\<close>, with
  exact rational values. The searches of a session answer; the permits of the rate
  limiter and the worker threads do not change what a search returns and are left out.
\<close>

definition test_album_similarity ::
  "(string \<Rightarrow> string \<Rightarrow> rat) \<Rightarrow> spotify_album \<Rightarrow> tidal_album \<Rightarrow> rat \<Rightarrow> bool" where
  "test_album_similarity ratio spotify_album tidal_album threshold =
     (ratio (simple (album_name spotify_album)) (simple (al_name tidal_album)) \<ge> threshold
      \<and> artist_match (al_artists tidal_album) (album_artists spotify_album))"

text \<open>\<open>xs[i]\<close>: a negative index counts from the end, and out of range raises.\<close>

definition py_index :: "'a list \<Rightarrow> int \<Rightarrow> py_error + 'a" where
  "py_index xs i =
     (if 0 \<le> i \<and> i < int (length xs) then Inr (xs ! nat i)
      else if i < 0 \<and> 0 \<le> i + int (length xs) then Inr (xs ! nat (i + int (length xs)))
      else Inl IndexError)"

fun search_albums_loop ::
  "(string \<Rightarrow> string \<Rightarrow> rat) \<Rightarrow> spotify_track \<Rightarrow> spotify_album \<Rightarrow> tidal_album list \<Rightarrow> caches
   \<Rightarrow> py_error + (tidal_track option \<times> caches)" where
  "search_albums_loop ratio spotify_track spotify_album [] c = Inr (None, c)"
| "search_albums_loop ratio spotify_track spotify_album (album # albums) c =
     (if num_tracks album \<ge> track_number spotify_track
         \<and> test_album_similarity ratio spotify_album album (3 / 5)
      then
        (let album_tracks = al_tracks album in
         if int (length album_tracks) < track_number spotify_track
         then (if int (length album_tracks) = num_tracks album then Inl AssertionError
               else search_albums_loop ratio spotify_track spotify_album albums c)
         else
           (case py_index album_tracks (track_number spotify_track - 1) of
              Inl e \<Rightarrow> Inl e
            | Inr track \<Rightarrow>
                if match track spotify_track
                then Inr (Some track, remove_match_failure c (sp_id spotify_track))
                else search_albums_loop ratio spotify_track spotify_album albums c))
      else search_albums_loop ratio spotify_track spotify_album albums c)"

definition search_for_track_in_album ::
  "(string \<Rightarrow> string \<Rightarrow> rat) \<Rightarrow> tidal_session \<Rightarrow> spotify_track \<Rightarrow> caches
   \<Rightarrow> py_error + (tidal_track option \<times> caches)" where
  "search_for_track_in_album ratio tidal_session spotify_track c =
     (case sp_album spotify_track of
        None \<Rightarrow> Inr (None, c)
      | Some spotify_album \<Rightarrow>
          (case album_artists spotify_album of
             [] \<Rightarrow> Inr (None, c)
           | first_artist # _ \<Rightarrow>
               (let query = simple (album_name spotify_album) @ '' '' @ simple first_artist;
                    album_result = search_albums tidal_session query
                in search_albums_loop ratio spotify_track spotify_album album_result c)))"

definition search_for_standalone_track ::
  "tidal_session \<Rightarrow> spotify_track \<Rightarrow> caches \<Rightarrow> py_error + (tidal_track option \<times> caches)" where
  "search_for_standalone_track tidal_session spotify_track c =
     (case sp_artists spotify_track of
        [] \<Rightarrow> Inl IndexError
      | first_artist # _ \<Rightarrow>
          (let query = simple (sp_name spotify_track) @ '' '' @ simple first_artist
           in case find (\<lambda>track. match track spotify_track) (search_tracks tidal_session query) of
                Some track \<Rightarrow> Inr (Some track, remove_match_failure c (sp_id spotify_track))
              | None \<Rightarrow> Inr (None, c)))"

definition tidal_search ::
  "(string \<Rightarrow> string \<Rightarrow> rat) \<Rightarrow> tidal_session \<Rightarrow> spotify_track \<Rightarrow> caches
   \<Rightarrow> py_error + (tidal_track option \<times> caches)" where
  "tidal_search ratio tidal_session spotify_track c =
     (case search_for_track_in_album ratio tidal_session spotify_track c of
        Inl e \<Rightarrow> Inl e
      | Inr (Some album_search, c1) \<Rightarrow> Inr (Some album_search, c1)
      | Inr (None, c1) \<Rightarrow>
          (case search_for_standalone_track tidal_session spotify_track c1 of
             Inl e \<Rightarrow> Inl e
           | Inr (Some track_search, c2) \<Rightarrow> Inr (Some track_search, c2)
           | Inr (None, c2) \<Rightarrow> Inr (None, cache_match_failure c2 (sp_id spotify_track))))"

section \<open>Pre-population of the match cache\<close>

text \<open>
  Each helper scans a snapshot of the other list; at the first hit it records the pair,
  pops that entry and returns. The result is the list after the pop and the caches.
\<close>

fun populate_one_track_from_spotify ::
  "spotify_track \<Rightarrow> tidal_track list \<Rightarrow> caches \<Rightarrow> tidal_track list \<times> caches" where
  "populate_one_track_from_spotify spotify_track [] c = ([], c)"
| "populate_one_track_from_spotify spotify_track (tidal_track # tidal_tracks) c =
     (if available tidal_track \<and> match tidal_track spotify_track
      then (tidal_tracks, track_match_cache_insert c (sp_id spotify_track, td_id tidal_track))
      else (let (rest, c') = populate_one_track_from_spotify spotify_track tidal_tracks c
            in (tidal_track # rest, c')))"

fun populate_one_track_from_tidal ::
  "tidal_track \<Rightarrow> spotify_track list \<Rightarrow> caches \<Rightarrow> spotify_track list \<times> caches" where
  "populate_one_track_from_tidal tidal_track [] c = ([], c)"
| "populate_one_track_from_tidal tidal_track (spotify_track # spotify_tracks) c =
     (if available tidal_track \<and> match tidal_track spotify_track
      then (spotify_tracks, track_match_cache_insert c (sp_id spotify_track, td_id tidal_track))
      else (let (rest, c') = populate_one_track_from_tidal tidal_track spotify_tracks c
            in (spotify_track # rest, c')))"

definition populate_track_match_cache ::
  "spotify_track list \<Rightarrow> tidal_track list \<Rightarrow> caches \<Rightarrow> caches" where
  "populate_track_match_cache spotify_tracks_in tidal_tracks_in c =
     (let (spotify_tracks, c1) =
            fold (\<lambda>track (spotify_tracks, c). populate_one_track_from_tidal track spotify_tracks c)
                 tidal_tracks_in (spotify_tracks_in, c);
          (tidal_tracks, c2) =
            fold (\<lambda>track (tidal_tracks, c). populate_one_track_from_spotify track tidal_tracks c)
                 spotify_tracks (tidal_tracks_in, c1)
      in c2)"

definition get_new_spotify_tracks ::
  "spotify_track list \<Rightarrow> tidal_track list \<Rightarrow> caches \<Rightarrow> spotify_track list \<times> caches" where
  "get_new_spotify_tracks spotify_tracks old_tidal_tracks c =
     (let c' = populate_track_match_cache spotify_tracks old_tidal_tracks c
      in (filter (\<lambda>spotify_track.
                    truthy (sp_id spotify_track)
                    \<and> \<not> truthy_int (track_match_cache_get c' (sp_id spotify_track))
                    \<and> \<not> has_match_failure c' (sp_id spotify_track))
                 spotify_tracks, c'))"

section \<open>Searching the new tracks\<close>

text \<open>
  The searches are gathered in the order of \<open>new_spotify_tracks\<close>, and the results come
  back in that order. The model runs them one after the other; the first exception
  ends the gathering.
\<close>

fun gather_searches ::
  "(string \<Rightarrow> string \<Rightarrow> rat) \<Rightarrow> tidal_session \<Rightarrow> spotify_track list \<Rightarrow> caches
   \<Rightarrow> py_error + (tidal_track option list \<times> caches)" where
  "gather_searches ratio tidal_session [] c = Inr ([], c)"
| "gather_searches ratio tidal_session (t # ts) c =
     (case tidal_search ratio tidal_session t c of
        Inl e \<Rightarrow> Inl e
      | Inr (r, c1) \<Rightarrow>
          (case gather_searches ratio tidal_session ts c1 of
             Inl e \<Rightarrow> Inl e
           | Inr (rs, c2) \<Rightarrow> Inr (r # rs, c2)))"

definition search_new_tracks_on_tidal ::
  "(string \<Rightarrow> string \<Rightarrow> rat) \<Rightarrow> tidal_session \<Rightarrow> spotify_track list \<Rightarrow> caches
   \<Rightarrow> py_error + (tidal_track option list \<times> caches)" where
  "search_new_tracks_on_tidal ratio tidal_session new_spotify_tracks c =
     (case gather_searches ratio tidal_session new_spotify_tracks c of
        Inl e \<Rightarrow> Inl e
      | Inr (search_results, c1) \<Rightarrow>
          Inr (search_results,
               fold (\<lambda>(spotify_track, search_result) c.
                       case search_result of
                         Some track \<Rightarrow> track_match_cache_insert c (sp_id spotify_track, td_id track)
                       | None \<Rightarrow> c)
                    (zip new_spotify_tracks search_results) c1))"

section \<open>Playlist update\<close>

text \<open>
  The two writers of \<open>tidalapi_patch\<close> are collaborators; a call to one of them is a
  value, with the ids it is given and the \<open>sync_favorites\<close> flag.
\<close>

datatype playlist_call =
    add_multiple_tracks_to_playlist "int list" bool
  | set_tidal_playlist "int list" bool

definition update_tidal_playlist ::
  "tidal_track list \<Rightarrow> tidal_track option list \<Rightarrow> bool \<Rightarrow> playlist_call option" where
  "update_tidal_playlist old_tidal_tracks new_tidal_tracks sync_favorites =
     (let old_tidal_track_ids = map td_id old_tidal_tracks;
          new_tidal_track_ids = map td_id (List.map_filter (\<lambda>t. t) new_tidal_tracks)
      in if new_tidal_track_ids = old_tidal_track_ids then None
         else if take (length old_tidal_track_ids) new_tidal_track_ids = old_tidal_track_ids
         then Some (add_multiple_tracks_to_playlist
                      (drop (length old_tidal_track_ids) new_tidal_track_ids) sync_favorites)
         else Some (set_tidal_playlist new_tidal_track_ids sync_favorites))"

definition sync_tracks ::
  "(string \<Rightarrow> string \<Rightarrow> rat) \<Rightarrow> tidal_session \<Rightarrow> spotify_track list \<Rightarrow> tidal_track list \<Rightarrow> bool
   \<Rightarrow> caches \<Rightarrow> py_error + (playlist_call option \<times> caches)" where
  "sync_tracks ratio tidal_session spotify_tracks old_tidal_tracks sync_favorites c =
     (let (new_spotify_tracks, c1) = get_new_spotify_tracks spotify_tracks old_tidal_tracks c
      in if new_spotify_tracks = [] then Inr (None, c1)
         else
           (case search_new_tracks_on_tidal ratio tidal_session new_spotify_tracks c1 of
              Inl e \<Rightarrow> Inl e
            | Inr (new_tidal_tracks, c2) \<Rightarrow>
                Inr (update_tidal_playlist old_tidal_tracks new_tidal_tracks sync_favorites, c2)))"

section \<open>The id list of a new playlist\<close>

definition join :: "string \<Rightarrow> string list \<Rightarrow> string" where
  "join sep xs = (case xs of [] \<Rightarrow> [] | y # ys \<Rightarrow> y @ concat (map (\<lambda>z. sep @ z) ys))"

definition duplicate_message :: "spotify_track \<Rightarrow> string" where
  "duplicate_message spotify_track =
     (let track_name = sp_name spotify_track;
          artist_names = join '', '' (sp_artists spotify_track)
      in ''Duplicate found: Track '' @ [CHR 0x22] @ track_name @ [CHR 0x22] @ '' by ''
         @ artist_names @ '' will be ignored'')"

text \<open>The loop carries \<open>output\<close>, \<open>seen_tracks\<close> and the lines printed so far.\<close>

fun new_playlist_loop ::
  "caches \<Rightarrow> spotify_track list \<Rightarrow> int list \<Rightarrow> int set \<Rightarrow> string list \<Rightarrow> int list \<times> string list" where
  "new_playlist_loop c [] output seen_tracks printed = (output, printed)"
| "new_playlist_loop c (spotify_track # spotify_tracks) output seen_tracks printed =
     (if \<not> truthy (sp_id spotify_track)
      then new_playlist_loop c spotify_tracks output seen_tracks printed
      else
        (case track_match_cache_get c (sp_id spotify_track) of
           None \<Rightarrow> new_playlist_loop c spotify_tracks output seen_tracks printed
         | Some tidal_id \<Rightarrow>
             if tidal_id = 0 then new_playlist_loop c spotify_tracks output seen_tracks printed
             else if tidal_id \<in> seen_tracks
             then new_playlist_loop c spotify_tracks output seen_tracks
                    (printed @ [duplicate_message spotify_track])
             else new_playlist_loop c spotify_tracks (output @ [tidal_id])
                    (insert tidal_id seen_tracks) printed))"

definition get_tracks_for_new_tidal_playlist ::
  "caches \<Rightarrow> spotify_track list \<Rightarrow> int list \<times> string list" where
  "get_tracks_for_new_tidal_playlist c spotify_tracks = new_playlist_loop c spotify_tracks [] {} []"

section \<open>Retry on request errors\<close>

text \<open>
  What one call of the wrapped function does: it returns, or raises one of the two
  caught exceptions, or raises another one. \<open>function n\<close> is the call made after
  \<open>n\<close> earlier calls. The run of the wrapper ends in a value, in the uncaught
  exception, or in \<open>sys.exit\<close> with a status; with it come the arguments of the
  \<open>time.sleep\<close> calls, in order. \<open>remaining\<close> starts at 5 and counts down.
\<close>

datatype 'a outcome = Returns 'a | TooManyRequests | RequestException | OtherException

datatype 'a ending = Returned 'a | Raised | Exit int

definition caught :: "'a outcome \<Rightarrow> bool" where
  \<comment> \<open>The exceptions of the \<open>except\<close> clause.\<close>
  "caught x = (x = TooManyRequests \<or> x = RequestException)"

definition sleep_schedule :: "(nat \<times> nat) list" where
  "sleep_schedule = [(5, 1), (4, 10), (3, 60), (2, 5 * 60), (1, 10 * 60)]"

fun repeat_on_request_error :: "(nat \<Rightarrow> 'a outcome) \<Rightarrow> nat \<Rightarrow> nat \<Rightarrow> 'a ending \<times> nat list" where
  "repeat_on_request_error function n remaining =
     (case function n of
        Returns v \<Rightarrow> (Returned v, [])
      | OtherException \<Rightarrow> (Raised, [])
      | _ \<Rightarrow>
          if remaining = 0 then (Exit 1, [])
          else
            (let (r, sleeps) = repeat_on_request_error function (Suc n) (remaining - 1)
             in (r, (case map_of sleep_schedule remaining of Some t \<Rightarrow> t | None \<Rightarrow> 1) # sleeps)))"

section \<open>Fetching the source tracks\<close>

text \<open>
  A page of the Spotify API: the \<open>track\<close> of every item (\<open>None\<close> where it is null),
  the \<open>next\<close> link, \<open>total\<close> and \<open>limit\<close>. \<open>fetch_function\<close> gives the page at an
  offset. \<open>math.ceil(total / limit)\<close> is taken with exact rationals.
\<close>

record page =
  items :: "spotify_track option list"
  next_link :: "string option"
  total :: int
  limit :: int





section \<open>Syncing the favorites\<close>


section \<open>Notions used to state the properties\<close>


text \<open>
  The target id that the loop of \<open>get_tracks_for_new_tidal_playlist\<close> takes for a source
  track: none for a track without id, without a cached match or with the id \<open>0\<close>.
\<close>

definition resolve :: "caches \<Rightarrow> spotify_track \<Rightarrow> int option" where
  "resolve c spotify_track =
     (if \<not> truthy (sp_id spotify_track) then None
      else case track_match_cache_get c (sp_id spotify_track) of
             None \<Rightarrow> None
           | Some tidal_id \<Rightarrow> if tidal_id = 0 then None else Some tidal_id)"

text \<open>A list without its repetitions, every element at its first occurrence.\<close>

definition keep_first :: "'a list \<Rightarrow> 'a list" where
  "keep_first xs = rev (remdups (rev xs))"

text \<open>
  What a pre-population step may do to the caches: leave the failure cache alone and
  record pairs of a source track of \<open>S\<close> and an available, matching track of \<open>T\<close>.
\<close>

definition from_available :: "spotify_track set \<Rightarrow> tidal_track set \<Rightarrow> caches \<Rightarrow> caches \<Rightarrow> bool" where
  "from_available S T c c' \<longleftrightarrow>
     failure_cache c' = failure_cache c
     \<and> (\<exists>recorded. track_match_cache c' = recorded @ track_match_cache c
           \<and> (\<forall>(k, tid)\<in>set recorded.
                 \<exists>t\<in>T. \<exists>s\<in>S. sp_id s = k \<and> td_id t = tid \<and> available t \<and> match t s))"

section \<open>Example tracks\<close>

definition blue_spotify :: spotify_track where
  "blue_spotify =
     \<lparr>sp_id = Some ''6rqhFgbbKwnb9MLmUQDhG6'', sp_name = ''Blue Monday'', duration_ms = 200000,
      sp_artists = [''New Order''], sp_isrc = Some (Some ''GBAAP8300001''),
      sp_album = Some \<lparr>album_name = ''Substance'', album_artists = [''New Order'']\<rparr>,
      track_number = 1\<rparr>"

definition blue_tidal :: tidal_track where
  "blue_tidal =
     \<lparr>td_id = 101, td_name = ''Blue Monday'', version = None, duration = 200,
      td_artists = [''New Order''], td_isrc = Some ''GBAAP8300001'', available = True\<rparr>"

definition ceremony_spotify :: spotify_track where
  "ceremony_spotify =
     \<lparr>sp_id = Some ''2ydUT1pFhuLDnouelIv4WH'', sp_name = ''Ceremony'', duration_ms = 263000,
      sp_artists = [''New Order''], sp_isrc = Some (Some ''GBAAP8100002''),
      sp_album = Some \<lparr>album_name = ''Substance'', album_artists = [''New Order'']\<rparr>,
      track_number = 2\<rparr>"

definition ceremony_tidal :: tidal_track where
  "ceremony_tidal =
     \<lparr>td_id = 102, td_name = ''Ceremony'', version = None, duration = 263,
      td_artists = [''New Order''], td_isrc = Some ''GBAAP8100002'', available = True\<rparr>"

text \<open>A catalog that knows one track and no album, and an empty pair of caches.\<close>

definition catalog :: tidal_session where
  "catalog =
     \<lparr>search_albums = (\<lambda>query. []),
      search_tracks = (\<lambda>query. if query = ''Ceremony New Order'' then [ceremony_tidal] else [])\<rparr>"

definition no_ratio :: "string \<Rightarrow> string \<Rightarrow> rat" where
  "no_ratio a b = 0"

definition empty_caches :: caches where
  "empty_caches = \<lparr>track_match_cache = [], failure_cache = {}\<rparr>"

text \<open>Three favorites in two pages of at most two items, one item without track.\<close>

definition favorites_pages :: "int \<Rightarrow> page" where
  "favorites_pages offset =
     (if offset = 0
      then \<lparr>items = [Some ceremony_spotify, None],
            next_link = Some ''https://api.spotify.com/v1/me/tracks?offset=2&limit=2'',
            total = 3, limit = 2\<rparr>
      else if offset = 2
      then \<lparr>items = [Some blue_spotify], next_link = None, total = 3, limit = 2\<rparr>
      else \<lparr>items = [], next_link = None, total = 3, limit = 2\<rparr>)"

text \<open>
  The same recording twice in the source, under two ids; the caches after both were
  matched to one track; the caches with a failure noted for a track; a catalog whose one
  track is not available.
\<close>

definition remaster_spotify :: spotify_track where
  "remaster_spotify =
     blue_spotify\<lparr>sp_id := Some ''5nY2Lr4Kk0G4dKSA5wLPyx'', sp_name := ''Blue Monday 1988'',
                  sp_artists := [''New Order'', ''Quincy Jones'']\<rparr>"

definition playlist_caches :: caches where
  "playlist_caches =
     \<lparr>track_match_cache =
        [(sp_id remaster_spotify, 101), (sp_id ceremony_spotify, 102), (sp_id blue_spotify, 101)],
      failure_cache = {}\<rparr>"

definition failed_before :: caches where
  "failed_before = \<lparr>track_match_cache = [], failure_cache = {sp_id blue_spotify}\<rparr>"

definition unavailable_catalog :: tidal_session where
  "unavailable_catalog =
     \<lparr>search_albums = (\<lambda>query. []),
      search_tracks = (\<lambda>query. [ceremony_tidal\<lparr>available := False\<rparr>])\<rparr>"







text \<open>A search that is always rate-limited, and one that returns at its third call.\<close>

definition always_limited :: "nat \<Rightarrow> int outcome" where
  "always_limited n = TooManyRequests"

definition recovering :: "nat \<Rightarrow> int outcome" where
  "recovering n = (if n < 2 then RequestException else Returns 102)"

section \<open>Rounding to a float is monotone, and exact on whole numbers up to \<open>2^53\<close>\<close>







declare float_pos.simps [simp del]

lemma two_powi_pos [simp]: "0 < (2::rat) powi k"
  by (simp add: power_int_def)











section \<open>The identity matcher: ISRC, duration and exclusion rules\<close>

text \<open>\<open>split\<close> gives at least one part, so \<open>s.split(sep)[0]\<close> is the head of a list.\<close>

lemma split_not_Nil: "split sep s \<noteq> []"
  by (induction sep s rule: split.induct) (auto split: list.splits)

lemma match_without_id: "\<not> truthy (sp_id s) \<Longrightarrow> \<not> match t s"
  by (simp add: match_def)

lemma isrc_match_iff: "isrc_match t s \<longleftrightarrow> (\<exists>v. sp_isrc s = Some v \<and> td_isrc t = v)"
  by (auto simp: isrc_match_def split: option.splits)

lemma exclusion_rule_name_match:
  assumes "pattern \<in> {''remix'', ''instrumental'', ''acapella''}"
    and "exclusion_rule pattern t s"
  shows "\<not> name_match t s"
  using assms by (auto simp: name_match_def)

text \<open>
  Claim C2, as the code has it. When exactly one of the lower-cased source title and the
  lower-cased candidate title or version contains one of the tokens \<open>remix\<close>,
  \<open>instrumental\<close>, \<open>acapella\<close>, and the ISRC test fails (the source has no \<open>isrc\<close>
  entry, or its entry differs from the candidate's \<open>isrc\<close>), then \<open>match\<close> is false,
  whatever the durations and artists are.
\<close>

theorem match_exclusion_rule:
  assumes "pattern \<in> {''remix'', ''instrumental'', ''acapella''}"
    and "contains (lower (sp_name s)) pattern \<noteq>
         (contains (lower (td_name t)) pattern
          \<or> (\<exists>v. version t = Some v \<and> contains (lower v) pattern))"
    and "sp_isrc s = None \<or> (\<exists>entry. sp_isrc s = Some entry \<and> td_isrc t \<noteq> entry)"
  shows "\<not> match t s"
proof -
  have "exclusion_rule pattern t s"
    using assms(2) by (auto simp: exclusion_rule_def split: option.splits)
  with assms(1) have "\<not> name_match t s"
    by (rule exclusion_rule_name_match)
  moreover have "\<not> isrc_match t s"
    using assms(3) by (auto simp: isrc_match_iff)
  ultimately show ?thesis
    by (simp add: match_def)
qed

text \<open>
  The theorem at a pair that agrees in title, duration and artist, where only the
  candidate's version names a remix and the candidate has no ISRC.
\<close>

theorem match_exclusion_rule_witness:
  "''remix'' \<in> {''remix'', ''instrumental'', ''acapella''}
   \<and> contains (lower (sp_name blue_spotify)) ''remix'' \<noteq>
       (contains (lower (td_name (blue_tidal\<lparr>version := Some ''Hardfloor Remix'', td_isrc := None\<rparr>))) ''remix''
        \<or> (\<exists>v. version (blue_tidal\<lparr>version := Some ''Hardfloor Remix'', td_isrc := None\<rparr>) = Some v
                \<and> contains (lower v) ''remix''))
   \<and> sp_isrc blue_spotify = Some (Some ''GBAAP8300001'')
   \<and> td_isrc (blue_tidal\<lparr>version := Some ''Hardfloor Remix'', td_isrc := None\<rparr>) = None
   \<and> \<not> match (blue_tidal\<lparr>version := Some ''Hardfloor Remix'', td_isrc := None\<rparr>) blue_spotify"
proof -
  let ?t = "blue_tidal\<lparr>version := Some ''Hardfloor Remix'', td_isrc := None\<rparr>"
  have h1: "''remix'' \<in> {''remix'', ''instrumental'', ''acapella''}"
    by simp
  have a: "\<not> contains (lower (sp_name blue_spotify)) ''remix''"
    by (simp add: blue_spotify_def) code_simp
  have b: "contains (lower ''Hardfloor Remix'') ''remix''"
    by code_simp
  have h2: "contains (lower (sp_name blue_spotify)) ''remix'' \<noteq>
       (contains (lower (td_name ?t)) ''remix''
        \<or> (\<exists>v. version ?t = Some v \<and> contains (lower v) ''remix''))"
    using a b by simp
  have i: "sp_isrc blue_spotify = Some (Some ''GBAAP8300001'')" "td_isrc ?t = None"
    by (simp_all add: blue_spotify_def)
  then have h3: "sp_isrc blue_spotify = None
      \<or> (\<exists>entry. sp_isrc blue_spotify = Some entry \<and> td_isrc ?t \<noteq> entry)"
    by simp
  from match_exclusion_rule [OF h1 h2 h3] h1 h2 i show ?thesis
    by simp
qed

text \<open>
  The claim as written lets the ISRC codes agree too. There the ISRC test decides alone:
  the pair below differs in the token \<open>remix\<close> and still matches.
\<close>

theorem match_exclusion_rule_isrc_counterexample:
  "contains (lower (sp_name blue_spotify)) ''remix'' \<noteq>
     (contains (lower (td_name (blue_tidal\<lparr>version := Some ''Hardfloor Remix''\<rparr>))) ''remix''
      \<or> (\<exists>v. version (blue_tidal\<lparr>version := Some ''Hardfloor Remix''\<rparr>) = Some v
              \<and> contains (lower v) ''remix''))
   \<and> match (blue_tidal\<lparr>version := Some ''Hardfloor Remix''\<rparr>) blue_spotify"
proof -
  have a: "\<not> contains (lower (sp_name blue_spotify)) ''remix''"
    by (simp add: blue_spotify_def) code_simp
  have b: "contains (lower ''Hardfloor Remix'') ''remix''"
    by code_simp
  have c: "match (blue_tidal\<lparr>version := Some ''Hardfloor Remix''\<rparr>) blue_spotify"
    by (simp add: match_def isrc_match_def truthy_def blue_spotify_def blue_tidal_def)
  from a b c show ?thesis
    by simp
qed

text \<open>
  Claim C3, as the code has it. For a source track with an id (neither \<open>None\<close> nor
  empty) whose ISRC is present and equal to the candidate's, \<open>match\<close> is true,
  whatever the names, durations and artists are.
\<close>

theorem match_isrc_sufficient:
  "truthy (sp_id s) \<Longrightarrow> sp_isrc s = Some (Some i) \<Longrightarrow> td_isrc t = Some i \<Longrightarrow> match t s"
  by (simp add: match_def isrc_match_def)

text \<open>The theorem at a pair that agrees in the ISRC and in nothing else.\<close>

theorem match_isrc_sufficient_witness:
  "truthy (sp_id blue_spotify) \<and> sp_isrc blue_spotify = Some (Some ''GBAAP8300001'')
   \<and> td_isrc (blue_tidal\<lparr>td_name := ''True Faith'', duration := 353, td_artists := [''Joy Division'']\<rparr>)
       = Some ''GBAAP8300001''
   \<and> match (blue_tidal\<lparr>td_name := ''True Faith'', duration := 353, td_artists := [''Joy Division'']\<rparr>)
        blue_spotify"
proof -
  let ?t = "blue_tidal\<lparr>td_name := ''True Faith'', duration := 353, td_artists := [''Joy Division'']\<rparr>"
  have h1: "truthy (sp_id blue_spotify)"
    by (simp add: truthy_def blue_spotify_def)
  have h2: "sp_isrc blue_spotify = Some (Some ''GBAAP8300001'')"
    by (simp add: blue_spotify_def)
  have h3: "td_isrc ?t = Some ''GBAAP8300001''"
    by (simp add: blue_tidal_def)
  from match_isrc_sufficient [OF h1 h2 h3] h1 h2 h3 show ?thesis
    by blast
qed

text \<open>
  The claim as written covers a source track without an id. \<open>match\<close> rejects such a
  track before it looks at the ISRC.
\<close>

theorem match_isrc_without_id_counterexample:
  "sp_isrc (blue_spotify\<lparr>sp_id := None\<rparr>) = Some (Some ''GBAAP8300001'')
   \<and> td_isrc blue_tidal = Some ''GBAAP8300001''
   \<and> \<not> match blue_tidal (blue_spotify\<lparr>sp_id := None\<rparr>)"
  by (simp add: match_def truthy_def blue_spotify_def blue_tidal_def)





section \<open>The playlist update\<close>

lemma take_length_eq_prefix: "take (length xs) ys = xs \<longleftrightarrow> prefix xs ys"
  by (metis append_eq_conv_conj prefix_def)

text \<open>
  Claim C4. With \<open>oldIds\<close> the ids of the old tracks and \<open>newIds\<close> the ids of the new
  tracks that are not \<open>None\<close>: equal lists give no call; else, when \<open>oldIds\<close> is a
  proper prefix of \<open>newIds\<close>, the one call appends \<open>newIds[len(oldIds):]\<close>, the rest of
  \<open>newIds\<close> after \<open>oldIds\<close>; otherwise the one call sets the playlist to \<open>newIds\<close>.
\<close>

theorem update_tidal_playlist_decision:
  "update_tidal_playlist old_tidal_tracks new_tidal_tracks sync_favorites =
     (let oldIds = map td_id old_tidal_tracks;
          newIds = map td_id (List.map_filter (\<lambda>t. t) new_tidal_tracks)
      in if newIds = oldIds then None
         else if strict_prefix oldIds newIds
         then Some (add_multiple_tracks_to_playlist (drop (length oldIds) newIds) sync_favorites)
         else Some (set_tidal_playlist newIds sync_favorites))
   \<and> (strict_prefix (map td_id old_tidal_tracks)
         (map td_id (List.map_filter (\<lambda>t. t) new_tidal_tracks)) \<longrightarrow>
       map td_id old_tidal_tracks
         @ drop (length (map td_id old_tidal_tracks))
             (map td_id (List.map_filter (\<lambda>t. t) new_tidal_tracks))
       = map td_id (List.map_filter (\<lambda>t. t) new_tidal_tracks))"
proof
  show "update_tidal_playlist old_tidal_tracks new_tidal_tracks sync_favorites =
     (let oldIds = map td_id old_tidal_tracks;
          newIds = map td_id (List.map_filter (\<lambda>t. t) new_tidal_tracks)
      in if newIds = oldIds then None
         else if strict_prefix oldIds newIds
         then Some (add_multiple_tracks_to_playlist (drop (length oldIds) newIds) sync_favorites)
         else Some (set_tidal_playlist newIds sync_favorites))"
    unfolding update_tidal_playlist_def Let_def take_length_eq_prefix strict_prefix_def
    by auto
next
  show "strict_prefix (map td_id old_tidal_tracks)
         (map td_id (List.map_filter (\<lambda>t. t) new_tidal_tracks)) \<longrightarrow>
       map td_id old_tidal_tracks
         @ drop (length (map td_id old_tidal_tracks))
             (map td_id (List.map_filter (\<lambda>t. t) new_tidal_tracks))
       = map td_id (List.map_filter (\<lambda>t. t) new_tidal_tracks)"
    by (metis append_eq_conv_conj prefix_def strict_prefix_def)
qed

text \<open>
  The theorem at the three cases: one more track at the end, two tracks swapped, nothing
  changed; a search result \<open>None\<close> is passed over.
\<close>

theorem update_tidal_playlist_decision_witness:
  "update_tidal_playlist [blue_tidal] [Some blue_tidal, None, Some ceremony_tidal] False
     = Some (add_multiple_tracks_to_playlist [102] False)
   \<and> update_tidal_playlist [blue_tidal, ceremony_tidal] [Some ceremony_tidal, Some blue_tidal] False
     = Some (set_tidal_playlist [102, 101] False)
   \<and> update_tidal_playlist [blue_tidal, ceremony_tidal] [Some blue_tidal, Some ceremony_tidal] True
     = None"
proof -
  have a: "strict_prefix [101] [101, 102 :: int]"
    by (simp add: strict_prefix_def)
  have b: "\<not> strict_prefix [101, 102] [102, 101 :: int]"
    by (simp add: strict_prefix_def)
  show ?thesis
    using update_tidal_playlist_decision
            [of "[blue_tidal]" "[Some blue_tidal, None, Some ceremony_tidal]" False]
          update_tidal_playlist_decision
            [of "[blue_tidal, ceremony_tidal]" "[Some ceremony_tidal, Some blue_tidal]" False]
          update_tidal_playlist_decision
            [of "[blue_tidal, ceremony_tidal]" "[Some blue_tidal, Some ceremony_tidal]" True]
          a b
    by (simp add: blue_tidal_def ceremony_tidal_def)
qed

section \<open>Retry on request errors: the schedule\<close>

lemma repeat_on_request_error_caught:
  "caught (function n) \<Longrightarrow>
   repeat_on_request_error function n remaining =
     (if remaining = 0 then (Exit 1, [])
      else (let (r, sleeps) = repeat_on_request_error function (Suc n) (remaining - 1)
            in (r, (case map_of sleep_schedule remaining of Some t \<Rightarrow> t | None \<Rightarrow> 1) # sleeps)))"
  by (cases "function n") (simp_all add: caught_def)

lemma repeat_on_request_error_returns:
  "function n = Returns v \<Longrightarrow> repeat_on_request_error function n remaining = (Returned v, [])"
  by simp

lemma repeat_on_request_error_exhausted:
  assumes "\<forall>k\<le>5. caught (function k)"
  shows "repeat_on_request_error function 0 5 = (Exit 1, [1, 10, 60, 300, 600])"
proof -
  have c: "caught (function 0)" "caught (function (Suc 0))" "caught (function (Suc (Suc 0)))"
    "caught (function (Suc (Suc (Suc 0))))" "caught (function (Suc (Suc (Suc (Suc 0)))))"
    "caught (function (Suc (Suc (Suc (Suc (Suc 0))))))"
    using assms by (simp_all add: eval_nat_numeral)
  show ?thesis
    by (simp add: repeat_on_request_error_caught c sleep_schedule_def
             del: repeat_on_request_error.simps)
qed

lemma repeat_on_request_error_recovers:
  assumes "k \<le> 5" and "\<forall>j<k. caught (function j)" and "function k = Returns v"
  shows "repeat_on_request_error function 0 5 = (Returned v, take k [1, 10, 60, 300, 600])"
proof -
  note unfold = repeat_on_request_error_caught repeat_on_request_error_returns sleep_schedule_def
  from assms(1) consider "k = 0" | "k = Suc 0" | "k = Suc (Suc 0)" | "k = Suc (Suc (Suc 0))"
    | "k = Suc (Suc (Suc (Suc 0)))" | "k = Suc (Suc (Suc (Suc (Suc 0))))"
    by (auto simp: eval_nat_numeral le_Suc_eq)
  then show ?thesis
  proof cases
    case 1
    with assms(3) show ?thesis by simp
  next
    case 2
    with assms(2) have "caught (function 0)" by simp
    with 2 assms(3) show ?thesis
      by (simp add: unfold del: repeat_on_request_error.simps)
  next
    case 3
    with assms(2) have "caught (function 0)" "caught (function (Suc 0))" by simp_all
    with 3 assms(3) show ?thesis
      by (simp add: unfold del: repeat_on_request_error.simps)
  next
    case 4
    with assms(2) have "caught (function 0)" "caught (function (Suc 0))"
      "caught (function (Suc (Suc 0)))" by simp_all
    with 4 assms(3) show ?thesis
      by (simp add: unfold del: repeat_on_request_error.simps)
  next
    case 5
    with assms(2) have "caught (function 0)" "caught (function (Suc 0))"
      "caught (function (Suc (Suc 0)))" "caught (function (Suc (Suc (Suc 0))))" by simp_all
    with 5 assms(3) show ?thesis
      by (simp add: unfold del: repeat_on_request_error.simps)
  next
    case 6
    with assms(2) have "caught (function 0)" "caught (function (Suc 0))"
      "caught (function (Suc (Suc 0)))" "caught (function (Suc (Suc (Suc 0))))"
      "caught (function (Suc (Suc (Suc (Suc 0)))))" by simp_all
    with 6 assms(3) show ?thesis
      by (simp add: unfold del: repeat_on_request_error.simps)
  qed
qed

text \<open>
  Claim C5. Started with \<open>remaining = 5\<close>: when the first call and the five retries all
  raise a caught exception (rate limit or transport), the wrapper has slept 1, 10, 60,
  300 and 600 seconds, in this order, and ends the process with exit status 1; it makes
  no seventh call. When the call number \<open>k \<le> 5\<close> (counted from 0) is the first to return,
  its value is returned after the first \<open>k\<close> sleeps of that schedule.
\<close>

theorem repeat_on_request_error_schedule:
  "((\<forall>k\<le>5. caught (function k)) \<longrightarrow>
      repeat_on_request_error function 0 5 = (Exit 1, [1, 10, 60, 300, 600]))
   \<and> (\<forall>k v. k \<le> 5 \<and> (\<forall>j<k. caught (function j)) \<and> function k = Returns v \<longrightarrow>
         repeat_on_request_error function 0 5 = (Returned v, take k [1, 10, 60, 300, 600]))"
proof (intro conjI impI allI)
  assume "\<forall>k\<le>5. caught (function k)"
  then show "repeat_on_request_error function 0 5 = (Exit 1, [1, 10, 60, 300, 600])"
    by (rule repeat_on_request_error_exhausted)
next
  fix k v
  assume "k \<le> 5 \<and> (\<forall>j<k. caught (function j)) \<and> function k = Returns v"
  then have "k \<le> 5" "\<forall>j<k. caught (function j)" "function k = Returns v"
    by simp_all
  then show "repeat_on_request_error function 0 5 = (Returned v, take k [1, 10, 60, 300, 600])"
    by (rule repeat_on_request_error_recovers)
qed

text \<open>
  The theorem at a search that is always rate-limited, and at one that meets two
  transport errors and then returns.
\<close>

theorem repeat_on_request_error_schedule_witness:
  "caught (always_limited 0) \<and> caught (always_limited 1) \<and> caught (always_limited 2)
   \<and> caught (always_limited 3) \<and> caught (always_limited 4) \<and> caught (always_limited 5)
   \<and> repeat_on_request_error always_limited 0 5 = (Exit 1, [1, 10, 60, 300, 600])
   \<and> caught (recovering 0) \<and> caught (recovering 1) \<and> recovering 2 = Returns 102
   \<and> repeat_on_request_error recovering 0 5 = (Returned 102, [1, 10])"
proof -
  have c: "caught (always_limited k)" for k
    by (simp add: caught_def always_limited_def)
  then have h1: "\<forall>k\<le>5. caught (always_limited k)"
    by simp
  have r: "caught (recovering 0)" "caught (recovering 1)" "recovering 2 = Returns 102"
    by (simp_all add: caught_def recovering_def)
  have h2: "(2::nat) \<le> 5 \<and> (\<forall>j<2. caught (recovering j)) \<and> recovering 2 = Returns 102"
    by (simp add: caught_def recovering_def)
  have t: "take 2 [1, 10, 60, 300, 600 :: nat] = [1, 10]"
    by (simp add: eval_nat_numeral)
  have a: "repeat_on_request_error always_limited 0 5 = (Exit 1, [1, 10, 60, 300, 600])"
    using repeat_on_request_error_schedule [of always_limited, THEN conjunct1] h1
    by (rule mp)
  have "repeat_on_request_error recovering 0 5 = (Returned 102, take 2 [1, 10, 60, 300, 600])"
    using repeat_on_request_error_schedule
            [of recovering, THEN conjunct2, THEN spec, THEN spec, of 2 102] h2
    by (rule mp)
  then have b: "repeat_on_request_error recovering 0 5 = (Returned 102, [1, 10])"
    by (simp only: t)
  from c a r b show ?thesis
    by simp
qed

section \<open>The favorites, oldest first\<close>









section \<open>The id list of a new playlist: no repetitions\<close>

lemma remdups_drop_seen: "t \<in> set bs \<Longrightarrow> remdups (as @ t # bs) = remdups (as @ bs)"
  by (induction as) auto

lemma keep_first_seen: "t \<in> set xs \<Longrightarrow> keep_first (xs @ t # ys) = keep_first (xs @ ys)"
  by (simp add: keep_first_def remdups_drop_seen)

lemma keep_first_distinct: "distinct xs \<Longrightarrow> keep_first xs = xs"
  by (simp add: keep_first_def distinct_remdups_id)

lemma remdups_append_tail: "\<exists>front. remdups (as @ bs) = front @ remdups bs"
proof (induction as)
  case Nil
  show ?case by simp
next
  case (Cons a as)
  then obtain front where "remdups (as @ bs) = front @ remdups bs" by blast
  then show ?case
    by (cases "a \<in> set as \<union> set bs") (auto intro: exI [of _ "a # front"])
qed

lemma keep_first_append_new:
  assumes "t \<notin> set xs"
  shows "\<exists>rest. keep_first (xs @ t # ys) = keep_first xs @ t # rest"
proof -
  obtain front where "remdups (rev ys @ t # rev xs) = front @ remdups (t # rev xs)"
    using remdups_append_tail by blast
  with assms have "keep_first (xs @ t # ys) = keep_first xs @ t # rev front"
    by (simp add: keep_first_def)
  then show ?thesis by blast
qed

lemma count_list_distinct: "distinct xs \<Longrightarrow> x \<in> set xs \<Longrightarrow> count_list xs x = 1"
  by (induction xs) auto

lemma new_playlist_loop_step:
  "new_playlist_loop c (s # ss) out seen printed =
     (case resolve c s of
        None \<Rightarrow> new_playlist_loop c ss out seen printed
      | Some t \<Rightarrow>
          if t \<in> seen then new_playlist_loop c ss out seen (printed @ [duplicate_message s])
          else new_playlist_loop c ss (out @ [t]) (insert t seen) printed)"
  by (simp add: resolve_def split: option.splits)

lemma new_playlist_loop_output:
  "distinct out \<Longrightarrow>
   fst (new_playlist_loop c ss out (set out) printed)
     = keep_first (out @ List.map_filter (resolve c) ss)"
proof (induction ss arbitrary: out printed)
  case Nil
  then show ?case by (simp add: keep_first_distinct)
next
  case (Cons s ss)
  show ?case
  proof (cases "resolve c s")
    case None
    with Cons show ?thesis
      by (simp add: new_playlist_loop_step del: new_playlist_loop.simps)
  next
    case (Some t)
    show ?thesis
    proof (cases "t \<in> set out")
      case True
      with Some Cons show ?thesis
        by (simp add: new_playlist_loop_step keep_first_seen del: new_playlist_loop.simps)
    next
      case False
      with Cons.prems have d: "distinct (out @ [t])" by simp
      from Cons.IH [OF d, of printed] Some False show ?thesis
        by (simp add: new_playlist_loop_step del: new_playlist_loop.simps)
    qed
  qed
qed

lemma new_playlist_loop_printed_mono:
  "set printed \<subseteq> set (snd (new_playlist_loop c ss out seen printed))"
proof (induction ss arbitrary: out seen printed)
  case Nil
  then show ?case by simp
next
  case (Cons s ss)
  have "set printed \<subseteq> set (printed @ [duplicate_message s])" by auto
  with Cons show ?case 
    by (simp only: new_playlist_loop_step split: option.splits if_splits) (meson order_trans)
qed

lemma new_playlist_loop_printed:
  assumes "j < length ss" and "resolve c (ss ! j) = Some t"
    and "t \<in> seen \<union> set (List.map_filter (resolve c) (take j ss))"
  shows "duplicate_message (ss ! j) \<in> set (snd (new_playlist_loop c ss out seen printed))"
  using assms
proof (induction ss arbitrary: j out seen printed)
  case Nil
  then show ?case by simp
next
  case (Cons s ss)
  show ?case
  proof (cases j)
    case 0
    with Cons.prems have "resolve c s = Some t" "t \<in> seen" by simp_all
    moreover have "duplicate_message s \<in> set (printed @ [duplicate_message s])" by simp
    ultimately show ?thesis
      using new_playlist_loop_printed_mono [of "printed @ [duplicate_message s]" c ss out seen] 0
      by (auto simp: new_playlist_loop_step simp del: new_playlist_loop.simps)
  next
    case (Suc k)
    with Cons.prems have k: "k < length ss" "resolve c (ss ! k) = Some t" by simp_all
    show ?thesis
    proof (cases "resolve c s")
      case None
      with Cons.prems(3) Suc have "t \<in> seen \<union> set (List.map_filter (resolve c) (take k ss))"
        by simp
      from Cons.IH [OF k this] None Suc show ?thesis
        by (simp add: new_playlist_loop_step del: new_playlist_loop.simps)
    next
      case (Some u)
      with Cons.prems(3) Suc have m: "t \<in> insert u seen \<union> set (List.map_filter (resolve c) (take k ss))"
        by auto
      show ?thesis
      proof (cases "u \<in> seen")
        case True
        with m have "t \<in> seen \<union> set (List.map_filter (resolve c) (take k ss))" by auto
        from Cons.IH [OF k this] Some True Suc show ?thesis
          by (simp add: new_playlist_loop_step del: new_playlist_loop.simps)
      next
        case False
        from Cons.IH [OF k m] Some False Suc show ?thesis
          by (simp add: new_playlist_loop_step del: new_playlist_loop.simps)
      qed
    qed
  qed
qed

lemma output_keep_first:
  "fst (get_tracks_for_new_tidal_playlist c ss) = keep_first (List.map_filter (resolve c) ss)"
  using new_playlist_loop_output [of "[]" c ss "[]"] by (simp add: get_tracks_for_new_tidal_playlist_def)

lemma map_filter_mem: "x \<in> set xs \<Longrightarrow> f x = Some y \<Longrightarrow> y \<in> set (List.map_filter f xs)"
  by (induction xs) (auto split: option.splits)

lemma map_filter_nth:
  "i < length xs \<Longrightarrow> f (xs ! i) = Some y \<Longrightarrow> y \<in> set (List.map_filter f (take (Suc i) xs))"
  by (force simp: List.map_filter_def in_set_conv_nth take_Suc_conv_app_nth)

lemma map_filter_take_drop:
  "i < length xs \<Longrightarrow> f (xs ! i) = Some y \<Longrightarrow>
   List.map_filter f xs = List.map_filter f (take i xs) @ y # List.map_filter f (drop (Suc i) xs)"
proof -
  assume a: "i < length xs" "f (xs ! i) = Some y"
  then have "xs = take i xs @ xs ! i # drop (Suc i) xs"
    by (simp add: id_take_nth_drop)
  then have "List.map_filter f xs = List.map_filter f (take i xs @ xs ! i # drop (Suc i) xs)"
    by simp
  with a show ?thesis
    by (simp add: List.map_filter_def)
qed

lemma new_playlist_loop_lengths:
  "length (fst (new_playlist_loop c ss out seen printed))
     + length (snd (new_playlist_loop c ss out seen printed))
   = length out + length printed + length (List.map_filter (resolve c) ss)"
proof (induction ss arbitrary: out seen printed)
  case Nil
  show ?case by simp
next
  case (Cons s ss)
  show ?case
    by (cases "resolve c s") (simp_all add: new_playlist_loop_step Cons del: new_playlist_loop.simps)
qed

lemma length_resolved:
  "length (List.map_filter (resolve c) ss)
   = length (filter (\<lambda>s. truthy (sp_id s) \<and> truthy_int (track_match_cache_get c (sp_id s))) ss)"
proof -
  have "resolve c s \<noteq> None
      \<longleftrightarrow> truthy (sp_id s) \<and> truthy_int (track_match_cache_get c (sp_id s))" for s
    by (simp add: resolve_def truthy_int_def split: option.splits)
  then show ?thesis
    by (simp add: List.map_filter_def)
qed

text \<open>
  Claim C8. When two tracks of the source sequence resolve through the match cache to
  the same target id \<open>t\<close> (each has an id, and its cached match is \<open>t\<close>, not \<open>0\<close>),
  then \<open>t\<close> is exactly once in the produced id list, and the line
  \<open>Duplicate found: Track "name" by artists will be ignored\<close>, with the name and the
  artists of the later track, is printed. Every track that resolves is either in the
  list or reported by a line. When the earlier track is the first that resolves to
  \<open>t\<close>, the ids before \<open>t\<close> in the list are those produced for the tracks before it.
\<close>

theorem get_tracks_for_new_tidal_playlist_dedup:
  assumes "i < j" and "j < length spotify_tracks"
    and "truthy (sp_id (spotify_tracks ! i))"
    and "track_match_cache_get c (sp_id (spotify_tracks ! i)) = Some t"
    and "truthy (sp_id (spotify_tracks ! j))"
    and "track_match_cache_get c (sp_id (spotify_tracks ! j)) = Some t"
    and "t \<noteq> 0"
  shows "count_list (fst (get_tracks_for_new_tidal_playlist c spotify_tracks)) t = 1
    \<and> ''Duplicate found: Track '' @ [CHR 0x22] @ sp_name (spotify_tracks ! j) @ [CHR 0x22]
          @ '' by '' @ join '', '' (sp_artists (spotify_tracks ! j)) @ '' will be ignored''
        \<in> set (snd (get_tracks_for_new_tidal_playlist c spotify_tracks))
    \<and> length (fst (get_tracks_for_new_tidal_playlist c spotify_tracks))
        + length (snd (get_tracks_for_new_tidal_playlist c spotify_tracks))
      = length (filter (\<lambda>s. truthy (sp_id s) \<and> truthy_int (track_match_cache_get c (sp_id s)))
                  spotify_tracks)
    \<and> ((\<forall>k<i. \<not> (truthy (sp_id (spotify_tracks ! k))
                  \<and> track_match_cache_get c (sp_id (spotify_tracks ! k)) = Some t)) \<longrightarrow>
         (\<exists>rest. fst (get_tracks_for_new_tidal_playlist c spotify_tracks)
                  = fst (get_tracks_for_new_tidal_playlist c (take i spotify_tracks)) @ t # rest))"
proof (intro conjI impI)
  let ?ss = spotify_tracks
  have i: "i < length ?ss" using assms(1,2) by simp
  have ri: "resolve c (?ss ! i) = Some t"
    using assms(3,4,7) by (simp add: resolve_def)
  have rj: "resolve c (?ss ! j) = Some t"
    using assms(5,6,7) by (simp add: resolve_def)
  have "?ss ! i \<in> set ?ss" using i by simp
  with ri have "t \<in> set (List.map_filter (resolve c) ?ss)"
    by (simp add: map_filter_mem)
  then have "t \<in> set (fst (get_tracks_for_new_tidal_playlist c ?ss))"
    by (simp add: output_keep_first keep_first_def)
  moreover have "distinct (fst (get_tracks_for_new_tidal_playlist c ?ss))"
    by (simp add: output_keep_first keep_first_def)
  ultimately show "count_list (fst (get_tracks_for_new_tidal_playlist c ?ss)) t = 1"
    by (simp add: count_list_distinct)
  have "?ss ! i \<in> set (take j ?ss)"
    using assms(1,2) by (auto simp: in_set_conv_nth intro!: exI [of _ i])
  with ri have "t \<in> {} \<union> set (List.map_filter (resolve c) (take j ?ss))"
    by (simp add: map_filter_mem)
  from new_playlist_loop_printed [OF assms(2) rj this]
  have "duplicate_message (?ss ! j) \<in> set (snd (get_tracks_for_new_tidal_playlist c ?ss))"
    by (simp add: get_tracks_for_new_tidal_playlist_def)
  then show "''Duplicate found: Track '' @ [CHR 0x22] @ sp_name (?ss ! j) @ [CHR 0x22]
          @ '' by '' @ join '', '' (sp_artists (?ss ! j)) @ '' will be ignored''
        \<in> set (snd (get_tracks_for_new_tidal_playlist c ?ss))"
    by (simp add: duplicate_message_def Let_def)
  show "length (fst (get_tracks_for_new_tidal_playlist c ?ss))
        + length (snd (get_tracks_for_new_tidal_playlist c ?ss))
      = length (filter (\<lambda>s. truthy (sp_id s) \<and> truthy_int (track_match_cache_get c (sp_id s))) ?ss)"
    using new_playlist_loop_lengths [of c ?ss "[]" "{}" "[]"]
    by (simp add: get_tracks_for_new_tidal_playlist_def length_resolved)
  assume first: "\<forall>k<i. \<not> (truthy (sp_id (?ss ! k))
                  \<and> track_match_cache_get c (sp_id (?ss ! k)) = Some t)"
  have "resolve c (?ss ! k) \<noteq> Some t" if "k < i" for k
    using first that by (auto simp: resolve_def split: option.splits if_splits)
  then have "t \<notin> set (List.map_filter (resolve c) (take i ?ss))"
    using i by (auto simp: List.map_filter_def in_set_conv_nth)
  from keep_first_append_new [OF this]
  obtain rest where
    "keep_first (List.map_filter (resolve c) (take i ?ss) @ t # List.map_filter (resolve c) (drop (Suc i) ?ss))
       = keep_first (List.map_filter (resolve c) (take i ?ss)) @ t # rest"
    by blast
  then show "\<exists>rest. fst (get_tracks_for_new_tidal_playlist c ?ss)
                  = fst (get_tracks_for_new_tidal_playlist c (take i ?ss)) @ t # rest"
    using map_filter_take_drop [of i ?ss "resolve c" t, OF i ri] by (simp add: output_keep_first)
qed

text \<open>
  The theorem at a source with the same recording under two ids, first and third: the
  id list has the recording once, and the one line printed names the third track and
  its two artists.
\<close>

theorem get_tracks_for_new_tidal_playlist_dedup_witness:
  "(0::nat) < 2 \<and> 2 < length [blue_spotify, ceremony_spotify, remaster_spotify]
   \<and> truthy (sp_id ([blue_spotify, ceremony_spotify, remaster_spotify] ! 0))
   \<and> track_match_cache_get playlist_caches
        (sp_id ([blue_spotify, ceremony_spotify, remaster_spotify] ! 0)) = Some 101
   \<and> truthy (sp_id ([blue_spotify, ceremony_spotify, remaster_spotify] ! 2))
   \<and> track_match_cache_get playlist_caches
        (sp_id ([blue_spotify, ceremony_spotify, remaster_spotify] ! 2)) = Some 101
   \<and> sp_id blue_spotify \<noteq> sp_id remaster_spotify
   \<and> get_tracks_for_new_tidal_playlist playlist_caches
          [blue_spotify, ceremony_spotify, remaster_spotify]
       = ([101, 102],
          [''Duplicate found: Track '' @ [CHR 0x22] @ ''Blue Monday 1988'' @ [CHR 0x22]
           @ '' by New Order, Quincy Jones will be ignored''])
   \<and> count_list (fst (get_tracks_for_new_tidal_playlist playlist_caches
              [blue_spotify, ceremony_spotify, remaster_spotify])) 101 = 1
   \<and> ''Duplicate found: Track '' @ [CHR 0x22] @ ''Blue Monday 1988'' @ [CHR 0x22]
         @ '' by New Order, Quincy Jones will be ignored''
       \<in> set (snd (get_tracks_for_new_tidal_playlist playlist_caches
                      [blue_spotify, ceremony_spotify, remaster_spotify]))"
proof -
  let ?ss = "[blue_spotify, ceremony_spotify, remaster_spotify]"
  have h1: "(0::nat) < 2" and h2: "2 < length ?ss"
    by simp_all
  have h3: "truthy (sp_id (?ss ! 0))"
    by (simp add: truthy_def blue_spotify_def)
  have h4: "track_match_cache_get playlist_caches (sp_id (?ss ! 0)) = Some 101"
    by (simp add: track_match_cache_get_def playlist_caches_def blue_spotify_def
          ceremony_spotify_def remaster_spotify_def)
  have h5: "truthy (sp_id (?ss ! 2))"
    by (simp add: truthy_def remaster_spotify_def)
  have h6: "track_match_cache_get playlist_caches (sp_id (?ss ! 2)) = Some 101"
    by (simp add: track_match_cache_get_def playlist_caches_def remaster_spotify_def)
  have h7: "(101::int) \<noteq> 0"
    by simp
  have d: "sp_id blue_spotify \<noteq> sp_id remaster_spotify"
    by (simp add: blue_spotify_def remaster_spotify_def)
  have out: "get_tracks_for_new_tidal_playlist playlist_caches ?ss
       = ([101, 102],
          [''Duplicate found: Track '' @ [CHR 0x22] @ ''Blue Monday 1988'' @ [CHR 0x22]
           @ '' by New Order, Quincy Jones will be ignored''])"
    by code_simp
  have j: "sp_name (?ss ! 2) = ''Blue Monday 1988''"
    "join '', '' (sp_artists (?ss ! 2)) = ''New Order, Quincy Jones''"
    by (simp_all add: remaster_spotify_def join_def)
  from get_tracks_for_new_tidal_playlist_dedup [OF h1 h2 h3 h4 h5 h6 h7]
  have "count_list (fst (get_tracks_for_new_tidal_playlist playlist_caches ?ss)) 101 = 1"
    and "''Duplicate found: Track '' @ [CHR 0x22] @ sp_name (?ss ! 2) @ [CHR 0x22]
          @ '' by '' @ join '', '' (sp_artists (?ss ! 2)) @ '' will be ignored''
        \<in> set (snd (get_tracks_for_new_tidal_playlist playlist_caches ?ss))"
    by blast+
  then have "count_list (fst (get_tracks_for_new_tidal_playlist playlist_caches ?ss)) 101 = 1"
    and "''Duplicate found: Track '' @ [CHR 0x22] @ ''Blue Monday 1988'' @ [CHR 0x22]
         @ '' by New Order, Quincy Jones will be ignored''
       \<in> set (snd (get_tracks_for_new_tidal_playlist playlist_caches ?ss))"
    by (simp_all only: j append_assoc append.simps)
  with h1 h2 h3 h4 h5 h6 d out show ?thesis
    by (intro conjI)
qed

section \<open>Pre-population pairs available tracks only\<close>

lemma from_available_refl: "from_available S T c c"
  by (simp add: from_available_def)

lemma from_available_trans:
  assumes "from_available S T c c1" and "from_available S T c1 c2"
  shows "from_available S T c c2"
proof -
  from assms(1) obtain r1 where r1: "track_match_cache c1 = r1 @ track_match_cache c"
    "\<forall>(k, tid)\<in>set r1. \<exists>t\<in>T. \<exists>s\<in>S. sp_id s = k \<and> td_id t = tid \<and> available t \<and> match t s"
    and f1: "failure_cache c1 = failure_cache c"
    unfolding from_available_def by blast
  from assms(2) obtain r2 where r2: "track_match_cache c2 = r2 @ track_match_cache c1"
    "\<forall>(k, tid)\<in>set r2. \<exists>t\<in>T. \<exists>s\<in>S. sp_id s = k \<and> td_id t = tid \<and> available t \<and> match t s"
    and f2: "failure_cache c2 = failure_cache c1"
    unfolding from_available_def by blast
  have "track_match_cache c2 = (r2 @ r1) @ track_match_cache c"
    using r1(1) r2(1) by simp
  moreover have "\<forall>(k, tid)\<in>set (r2 @ r1).
      \<exists>t\<in>T. \<exists>s\<in>S. sp_id s = k \<and> td_id t = tid \<and> available t \<and> match t s"
    using r1(2) r2(2) by auto
  ultimately show ?thesis
    unfolding from_available_def using f1 f2 by blast
qed

lemma from_available_insert:
  assumes "t \<in> T" and "s \<in> S" and "available t" and "match t s"
  shows "from_available S T c (track_match_cache_insert c (sp_id s, td_id t))"
  unfolding from_available_def track_match_cache_insert_def
  using assms by (auto intro!: exI [of _ "[(sp_id s, td_id t)]"])

lemma populate_one_track_from_tidal_available:
  "populate_one_track_from_tidal t sps c = (sps', c') \<Longrightarrow> t \<in> T \<Longrightarrow> set sps \<subseteq> S \<Longrightarrow>
   set sps' \<subseteq> S \<and> from_available S T c c'"
proof (induction sps arbitrary: sps' c')
  case Nil
  then show ?case by (simp add: from_available_refl)
next
  case (Cons s sps)
  show ?case
  proof (cases "available t \<and> match t s")
    case True
    with Cons.prems show ?thesis
      by (auto simp: from_available_insert)
  next
    case False
    obtain rest c1 where r: "populate_one_track_from_tidal t sps c = (rest, c1)"
      by (cases "populate_one_track_from_tidal t sps c")
    with False Cons.prems have "sps' = s # rest" "c' = c1" by auto
    with Cons.IH [OF r] Cons.prems show ?thesis by auto
  qed
qed

lemma populate_one_track_from_spotify_available:
  "populate_one_track_from_spotify s tds c = (tds', c') \<Longrightarrow> s \<in> S \<Longrightarrow> set tds \<subseteq> T \<Longrightarrow>
   set tds' \<subseteq> T \<and> from_available S T c c'"
proof (induction tds arbitrary: tds' c')
  case Nil
  then show ?case by (simp add: from_available_refl)
next
  case (Cons t tds)
  show ?case
  proof (cases "available t \<and> match t s")
    case True
    with Cons.prems show ?thesis
      by (auto simp: from_available_insert)
  next
    case False
    obtain rest c1 where r: "populate_one_track_from_spotify s tds c = (rest, c1)"
      by (cases "populate_one_track_from_spotify s tds c")
    with False Cons.prems have "tds' = t # rest" "c' = c1" by auto
    with Cons.IH [OF r] Cons.prems show ?thesis by auto
  qed
qed

lemma first_pass_available:
  "fold (\<lambda>track (spotify_tracks, c). populate_one_track_from_tidal track spotify_tracks c) tds (sps, c)
     = (sps', c') \<Longrightarrow> set tds \<subseteq> T \<Longrightarrow> set sps \<subseteq> S \<Longrightarrow>
   set sps' \<subseteq> S \<and> from_available S T c c'"
proof (induction tds arbitrary: sps c)
  case Nil
  then show ?case by (simp add: from_available_refl)
next
  case (Cons t tds)
  obtain sps1 c1 where one: "populate_one_track_from_tidal t sps c = (sps1, c1)"
    by (cases "populate_one_track_from_tidal t sps c")
  from populate_one_track_from_tidal_available [OF one, of T S] Cons.prems(2,3)
  have s1: "set sps1 \<subseteq> S" and a1: "from_available S T c c1"
    by simp_all
  from Cons.prems(1) one
  have "fold (\<lambda>track (spotify_tracks, c). populate_one_track_from_tidal track spotify_tracks c)
          tds (sps1, c1) = (sps', c')"
    by simp
  from Cons.IH [OF this _ s1] Cons.prems(2) have "set sps' \<subseteq> S \<and> from_available S T c1 c'"
    by simp
  with a1 show ?case
    by (blast intro: from_available_trans)
qed

lemma second_pass_available:
  "fold (\<lambda>track (tidal_tracks, c). populate_one_track_from_spotify track tidal_tracks c) sps (tds, c)
     = (tds', c') \<Longrightarrow> set tds \<subseteq> T \<Longrightarrow> set sps \<subseteq> S \<Longrightarrow>
   set tds' \<subseteq> T \<and> from_available S T c c'"
proof (induction sps arbitrary: tds c)
  case Nil
  then show ?case by (simp add: from_available_refl)
next
  case (Cons s sps)
  obtain tds1 c1 where one: "populate_one_track_from_spotify s tds c = (tds1, c1)"
    by (cases "populate_one_track_from_spotify s tds c")
  from populate_one_track_from_spotify_available [OF one, of S T] Cons.prems(2,3)
  have s1: "set tds1 \<subseteq> T" and a1: "from_available S T c c1"
    by simp_all
  from Cons.prems(1) one
  have "fold (\<lambda>track (tidal_tracks, c). populate_one_track_from_spotify track tidal_tracks c)
          sps (tds1, c1) = (tds', c')"
    by simp
  from Cons.IH [OF this s1] Cons.prems(3) have "set tds' \<subseteq> T \<and> from_available S T c1 c'"
    by simp
  with a1 show ?case
    by (blast intro: from_available_trans)
qed

lemma populate_track_match_cache_available:
  "from_available (set sps) (set tds) c (populate_track_match_cache sps tds c)"
proof -
  obtain sps1 c1 where p1:
    "fold (\<lambda>track (spotify_tracks, c). populate_one_track_from_tidal track spotify_tracks c)
       tds (sps, c) = (sps1, c1)"
    by (cases "fold (\<lambda>track (spotify_tracks, c).
                  populate_one_track_from_tidal track spotify_tracks c) tds (sps, c)")
  obtain tds2 c2 where p2:
    "fold (\<lambda>track (tidal_tracks, c). populate_one_track_from_spotify track tidal_tracks c)
       sps1 (tds, c1) = (tds2, c2)"
    by (cases "fold (\<lambda>track (tidal_tracks, c).
                  populate_one_track_from_spotify track tidal_tracks c) sps1 (tds, c1)")
  from first_pass_available [OF p1, of "set tds" "set sps"]
  have a: "set sps1 \<subseteq> set sps" "from_available (set sps) (set tds) c c1" by simp_all
  from second_pass_available [OF p2, of "set tds" "set sps"] a(1)
  have "from_available (set sps) (set tds) c1 c2" by simp
  with a(2) have "from_available (set sps) (set tds) c c2"
    by (rule from_available_trans)
  with p1 p2 show ?thesis
    by (simp add: populate_track_match_cache_def)
qed

lemma exclusion_rule_ignores_available:
  "exclusion_rule pattern (t\<lparr>available := a\<rparr>) s = exclusion_rule pattern t s"
  by (simp add: exclusion_rule_def)

lemma name_match_ignores_available: "name_match (t\<lparr>available := a\<rparr>) s = name_match t s"
  by (simp add: name_match_def exclusion_rule_ignores_available)

lemma match_ignores_available: "match (t\<lparr>available := a\<rparr>) s = match t s"
  by (simp add: match_def isrc_match_iff duration_match_def name_match_ignores_available)

text \<open>
  Claim C9. The pairs that \<open>populate_track_match_cache\<close> records are put in front of
  the match cache, and every one of them pairs a source track of its input with a Tidal
  track of its input that is available and matches it. \<open>match\<close> itself does not read
  the availability flag, so a match confirmed by a search carries no such check.
\<close>

theorem populate_track_match_cache_only_available:
  "(\<exists>recorded.
      track_match_cache (populate_track_match_cache spotify_tracks tidal_tracks c)
        = recorded @ track_match_cache c
      \<and> (\<forall>(spotify_id, tidal_id)\<in>set recorded.
            \<exists>tidal_track\<in>set tidal_tracks. \<exists>spotify_track\<in>set spotify_tracks.
              sp_id spotify_track = spotify_id \<and> td_id tidal_track = tidal_id
              \<and> available tidal_track \<and> match tidal_track spotify_track))
   \<and> (\<forall>tidal_track spotify_track a.
         match (tidal_track\<lparr>available := a\<rparr>) spotify_track = match tidal_track spotify_track)"
  using populate_track_match_cache_available [of spotify_tracks tidal_tracks c]
  by (simp add: from_available_def match_ignores_available)

text \<open>
  The theorem at a target with an unavailable and an available track, both matching a
  source track: only the available one is paired. A search, in contrast, returns the
  unavailable track of the catalog.
\<close>

theorem populate_track_match_cache_only_available_witness:
  "track_match_cache
     (populate_track_match_cache [blue_spotify, ceremony_spotify]
        [blue_tidal\<lparr>available := False\<rparr>, ceremony_tidal] empty_caches)
     = [(sp_id ceremony_spotify, 102)]
   \<and> available ceremony_tidal
   \<and> match (blue_tidal\<lparr>available := False\<rparr>) blue_spotify
   \<and> map_sum id fst (tidal_search no_ratio unavailable_catalog ceremony_spotify empty_caches)
       = Inr (Some (ceremony_tidal\<lparr>available := False\<rparr>))"
proof -
  let ?tds = "[blue_tidal\<lparr>available := False\<rparr>, ceremony_tidal]"
  let ?sps = "[blue_spotify, ceremony_spotify]"
  have ev: "track_match_cache (populate_track_match_cache ?sps ?tds empty_caches)
      = [(sp_id ceremony_spotify, 102)]"
    by code_simp
  from populate_track_match_cache_only_available [of ?sps ?tds empty_caches]
  obtain recorded where r:
    "track_match_cache (populate_track_match_cache ?sps ?tds empty_caches)
       = recorded @ track_match_cache empty_caches"
    "\<forall>(spotify_id, tidal_id)\<in>set recorded.
       \<exists>tidal_track\<in>set ?tds. \<exists>spotify_track\<in>set ?sps.
         sp_id spotify_track = spotify_id \<and> td_id tidal_track = tidal_id
         \<and> available tidal_track \<and> match tidal_track spotify_track"
    and ign: "\<forall>tidal_track spotify_track a.
         match (tidal_track\<lparr>available := a\<rparr>) spotify_track = match tidal_track spotify_track"
    by blast
  from r(1) ev have "recorded = [(sp_id ceremony_spotify, 102)]"
    by (simp add: empty_caches_def)
  with r(2) have "\<exists>tidal_track\<in>set ?tds. td_id tidal_track = 102 \<and> available tidal_track"
    by auto
  then have a: "available ceremony_tidal"
    by (auto simp: blue_tidal_def)
  have "match blue_tidal blue_spotify"
    by (simp add: match_def isrc_match_def truthy_def blue_spotify_def blue_tidal_def)
  with ign have m: "match (blue_tidal\<lparr>available := False\<rparr>) blue_spotify"
    by simp
  have s: "map_sum id fst (tidal_search no_ratio unavailable_catalog ceremony_spotify empty_caches)
       = Inr (Some (ceremony_tidal\<lparr>available := False\<rparr>))"
    by code_simp
  from ev a m s show ?thesis
    by simp
qed

section \<open>The two caches\<close>

text \<open>
  A search that finds a track removes the failure noted for the source id, and a search
  notes a failure only when both stages found nothing.
\<close>

text \<open>The assertion on the album metadata never fails where it is evaluated.\<close>

lemma search_albums_loop_no_assertion:
  "search_albums_loop ratio s sa albums c \<noteq> Inl AssertionError"
  by (induction albums) (auto simp: Let_def py_index_def split: sum.splits)

lemma search_albums_loop_result:
  "search_albums_loop ratio s sa albums c = Inr (r, c') \<Longrightarrow>
   (case r of None \<Rightarrow> c' = c
    | Some track \<Rightarrow> c' = remove_match_failure c (sp_id s) \<and> match track s)"
  by (induction albums) (auto simp: Let_def split: if_splits sum.splits)

lemma search_for_track_in_album_result:
  "search_for_track_in_album ratio session s c = Inr (r, c') \<Longrightarrow>
   (case r of None \<Rightarrow> c' = c
    | Some track \<Rightarrow> c' = remove_match_failure c (sp_id s) \<and> match track s)"
  by (auto simp: search_for_track_in_album_def Let_def dest: search_albums_loop_result
           split: option.splits list.splits)

lemma search_for_standalone_track_result:
  "search_for_standalone_track session s c = Inr (r, c') \<Longrightarrow>
   (case r of None \<Rightarrow> c' = c
    | Some track \<Rightarrow> c' = remove_match_failure c (sp_id s) \<and> match track s)"
  by (auto simp: search_for_standalone_track_def Let_def find_Some_iff
           split: option.splits list.splits)

lemma tidal_search_result:
  assumes "tidal_search ratio session s c = Inr (r, c')"
  shows "case r of
           None \<Rightarrow> c' = cache_match_failure c (sp_id s)
                  \<and> search_for_track_in_album ratio session s c = Inr (None, c)
                  \<and> search_for_standalone_track session s c = Inr (None, c)
         | Some track \<Rightarrow> c' = remove_match_failure c (sp_id s) \<and> match track s"
proof (cases "search_for_track_in_album ratio session s c")
  case (Inl e)
  with assms show ?thesis by (simp add: tidal_search_def)
next
  case (Inr p)
  obtain r1 c1 where p: "p = (r1, c1)" by (cases p)
  show ?thesis
  proof (cases r1)
    case (Some track)
    with assms Inr p search_for_track_in_album_result [of ratio session s c r1 c1]
    show ?thesis by (auto simp: tidal_search_def)
  next
    case None
    with Inr p search_for_track_in_album_result [of ratio session s c r1 c1]
    have c1: "c1 = c" by simp
    show ?thesis
    proof (cases "search_for_standalone_track session s c")
      case (Inl e)
      with assms Inr p None c1 show ?thesis by (simp add: tidal_search_def)
    next
      case (Inr q)
      obtain r2 c2 where q: "q = (r2, c2)" by (cases q)
      from Inr q search_for_standalone_track_result [of session s c r2 c2]
      have "case r2 of None \<Rightarrow> c2 = c
            | Some track \<Rightarrow> c2 = remove_match_failure c (sp_id s) \<and> match track s"
        by simp
      with assms \<open>search_for_track_in_album ratio session s c = Inr p\<close> p None c1 Inr q
      show ?thesis
        by (cases r2) (auto simp: tidal_search_def)
    qed
  qed
qed

text \<open>
  Claim C6 at a source track with a failure noted in an earlier run, whose recording is
  now on the target. Pre-population records the match and leaves the failure: afterwards
  both caches hold the id.
\<close>

theorem populate_track_match_cache_keeps_failure:
  "has_match_failure failed_before (sp_id blue_spotify)
   \<and> track_match_cache_get failed_before (sp_id blue_spotify) = None
   \<and> track_match_cache_get (populate_track_match_cache [blue_spotify] [blue_tidal] failed_before)
        (sp_id blue_spotify) = Some 101
   \<and> has_match_failure (populate_track_match_cache [blue_spotify] [blue_tidal] failed_before)
        (sp_id blue_spotify)"
proof -
  have "has_match_failure failed_before (sp_id blue_spotify)"
    by (simp add: has_match_failure_def failed_before_def)
  moreover have "track_match_cache_get failed_before (sp_id blue_spotify) = None"
    by (simp add: track_match_cache_get_def failed_before_def)
  moreover have "track_match_cache_get
      (populate_track_match_cache [blue_spotify] [blue_tidal] failed_before)
      (sp_id blue_spotify) = Some 101"
    by code_simp
  moreover have "has_match_failure
      (populate_track_match_cache [blue_spotify] [blue_tidal] failed_before) (sp_id blue_spotify)"
    by code_simp
  ultimately show ?thesis
    by simp
qed

section \<open>What the updater is given\<close>

text \<open>
  Claim C1 at a source of two tracks, the first already on the target, the second found
  by the search. The updater is given the search results only, and it sets the playlist
  to the one track found; the id list built from the match cache in source order has
  both tracks.
\<close>

theorem sync_tracks_hands_over_search_results:
  "map_sum id fst
     (sync_tracks no_ratio catalog [blue_spotify, ceremony_spotify] [blue_tidal] False empty_caches)
     = Inr (Some (set_tidal_playlist [102] False))
   \<and> (case sync_tracks no_ratio catalog [blue_spotify, ceremony_spotify] [blue_tidal] False
             empty_caches of
         Inl e \<Rightarrow> False
       | Inr (call, c') \<Rightarrow>
           fst (get_tracks_for_new_tidal_playlist c' [blue_spotify, ceremony_spotify]) = [101, 102])"
proof -
  have "map_sum id fst
     (sync_tracks no_ratio catalog [blue_spotify, ceremony_spotify] [blue_tidal] False empty_caches)
     = Inr (Some (set_tidal_playlist [102] False))"
    by code_simp
  moreover have "case sync_tracks no_ratio catalog [blue_spotify, ceremony_spotify] [blue_tidal] False
             empty_caches of
         Inl e \<Rightarrow> False
       | Inr (call, c') \<Rightarrow>
           fst (get_tracks_for_new_tidal_playlist c' [blue_spotify, ceremony_spotify]) = [101, 102]"
    by code_simp
  ultimately show ?thesis
    by simp
qed

end
